theory Spec2Isabelle
  imports Main "HOL-Library.Sublist" "HOL-Library.Char_ord" "HOL-Library.List_Lexorder"
    "HOL-Library.Multiset"
begin

section \<open>Python values\<close>

text \<open>
  The functions of \<^verbatim>\<open>target_snowflake/db_sync.py\<close> work on values decoded from
  JSON: schemas, records and the configuration. A dict keeps its insertion order, so it is
  an association list (with distinct keys); \<^verbatim>\<open>None\<close> is \<open>JNull\<close>. A float is
  carried by its \<^verbatim>\<open>repr\<close> text: no operation modelled here computes with floats.
  Strings are lists of 8-bit characters and the case conversions act on ASCII letters only.
\<close>

datatype json =
    JNull
  | JBool bool
  | JInt int
  | JFloat string
  | JStr string
  | JArr "json list"
  | JObj "(string \<times> json) list"

type_synonym py_dict = "(string \<times> json) list"

datatype py_error =
    KeyError string
  | TypeError
  | IndexError
  | AttributeError string
  | ValueError string
  | SystemExit int

text \<open>\<^verbatim>\<open>d.get(k, None)\<close> and \<^verbatim>\<open>d[k]\<close> on a dict.\<close>

definition py_get :: "py_dict \<Rightarrow> string \<Rightarrow> json" where
  "py_get d k = (case map_of d k of None \<Rightarrow> JNull | Some v \<Rightarrow> v)"

definition py_getitem :: "py_dict \<Rightarrow> string \<Rightarrow> py_error + json" where
  "py_getitem d k = (case map_of d k of None \<Rightarrow> Inl (KeyError k) | Some v \<Rightarrow> Inr v)"

definition py_has_key :: "string \<Rightarrow> py_dict \<Rightarrow> bool" where
  "py_has_key k d = (map_of d k \<noteq> None)"

text \<open>Truth value of an object, as \<^verbatim>\<open>if x\<close> and \<^verbatim>\<open>not x\<close> read it.\<close>

fun py_truthy :: "json \<Rightarrow> bool" where
  "py_truthy JNull = False"
| "py_truthy (JBool b) = b"
| "py_truthy (JInt n) = (n \<noteq> 0)"
| "py_truthy (JFloat r) = (r \<noteq> ''0.0'' \<and> r \<noteq> ''-0.0'')"
| "py_truthy (JStr s) = (s \<noteq> [])"
| "py_truthy (JArr xs) = (xs \<noteq> [])"
| "py_truthy (JObj kvs) = (kvs \<noteq> [])"

text \<open>
  \<^verbatim>\<open>s in x\<close> for a string \<open>s\<close>: membership in a list, a substring test on a string,
  a key test on a dict, and a \<^verbatim>\<open>TypeError\<close> on anything that is not iterable.
\<close>

fun py_in :: "string \<Rightarrow> json \<Rightarrow> py_error + bool" where
  "py_in s (JArr xs) = Inr (JStr s \<in> set xs)"
| "py_in s (JStr t) = Inr (sublist s t)"
| "py_in s (JObj kvs) = Inr (py_has_key s kvs)"
| "py_in s JNull = Inl TypeError"
| "py_in s (JBool b) = Inl TypeError"
| "py_in s (JInt n) = Inl TypeError"
| "py_in s (JFloat r) = Inl TypeError"

section \<open>Strings\<close>

definition ascii_lowercase :: string where
  "ascii_lowercase = ''abcdefghijklmnopqrstuvwxyz''"

definition ascii_uppercase :: string where
  "ascii_uppercase = ''ABCDEFGHIJKLMNOPQRSTUVWXYZ''"

definition py_upper_char :: "char \<Rightarrow> char" where
  "py_upper_char c =
     (case map_of (zip ascii_lowercase ascii_uppercase) c of None \<Rightarrow> c | Some u \<Rightarrow> u)"

definition py_lower_char :: "char \<Rightarrow> char" where
  "py_lower_char c =
     (case map_of (zip ascii_uppercase ascii_lowercase) c of None \<Rightarrow> c | Some l \<Rightarrow> l)"

definition py_upper :: "string \<Rightarrow> string" where
  "py_upper s = map py_upper_char s"

definition py_lower :: "string \<Rightarrow> string" where
  "py_lower s = map py_lower_char s"

text \<open>\<^verbatim>\<open>sep.join(xs)\<close>.\<close>

fun py_join :: "string \<Rightarrow> string list \<Rightarrow> string" where
  "py_join sep [] = []"
| "py_join sep [x] = x"
| "py_join sep (x # y # ys) = x @ sep @ py_join sep (y # ys)"

section \<open>Type mapping\<close>

text \<open>
  \<^verbatim>\<open>column_type(schema_property)\<close>: \<^verbatim>\<open>schema_property['type']\<close> raises
  \<^verbatim>\<open>KeyError\<close> when the key is missing, and the first test
  \<^verbatim>\<open>'object' in property_type\<close> raises \<^verbatim>\<open>TypeError\<close> when the type is not
  iterable. After that the \<^verbatim>\<open>if/elif\<close> chain is read top down.
\<close>

definition column_type :: "py_dict \<Rightarrow> py_error + string" where
  "column_type schema_property =
     (case py_getitem schema_property ''type'' of
        Inl e \<Rightarrow> Inl e
      | Inr property_type \<Rightarrow>
          let property_format =
                (if py_has_key ''format'' schema_property
                 then py_get schema_property ''format'' else JNull)
          in
          (case py_in ''object'' property_type of
             Inl e \<Rightarrow> Inl e
           | Inr _ \<Rightarrow>
               Inr (if py_in ''object'' property_type = Inr True
                       \<or> py_in ''array'' property_type = Inr True then ''variant''
                    else if property_format = JStr ''date-time'' then ''timestamp_ntz''
                    else if property_format = JStr ''time'' then ''time''
                    else if property_format = JStr ''binary'' then ''binary''
                    else if py_in ''number'' property_type = Inr True then ''float''
                    else if py_in ''integer'' property_type = Inr True
                            \<and> py_in ''string'' property_type = Inr True then ''text''
                    else if py_in ''integer'' property_type = Inr True then ''number''
                    else if py_in ''boolean'' property_type = Inr True then ''boolean''
                    else ''text'')))"

text \<open>
  \<^verbatim>\<open>column_trans(schema_property)\<close>; \<^verbatim>\<open>schema_property.get('format')\<close> is
  \<^verbatim>\<open>None\<close> when the key is missing.
\<close>

definition column_trans :: "py_dict \<Rightarrow> py_error + string" where
  "column_trans schema_property =
     (case py_getitem schema_property ''type'' of
        Inl e \<Rightarrow> Inl e
      | Inr property_type \<Rightarrow>
          (case py_in ''object'' property_type of
             Inl e \<Rightarrow> Inl e
           | Inr _ \<Rightarrow>
               Inr (if py_in ''object'' property_type = Inr True
                       \<or> py_in ''array'' property_type = Inr True then ''parse_json''
                    else if py_get schema_property ''format'' = JStr ''binary''
                    then ''to_binary''
                    else [])))"

section \<open>Configuration check\<close>

text \<open>
  \<^verbatim>\<open>validate_config(config)\<close> returns the list of error messages.
  \<^verbatim>\<open>config.get(k, None)\<close> is read for its truth value only.
\<close>

definition s3_required_config_keys :: "string list" where
  "s3_required_config_keys =
     [''account'', ''dbname'', ''user'', ''password'', ''warehouse'', ''s3_bucket'',
      ''stage'', ''file_format'']"

definition snowflake_required_config_keys :: "string list" where
  "snowflake_required_config_keys =
     [''account'', ''dbname'', ''user'', ''password'', ''warehouse'', ''file_format'']"

definition only_one_stage_key_error :: string where
  "only_one_stage_key_error =
     ''Only one of 's3_bucket' or 'stage' keys defined in config. '' @
     ''Use both of them if you want to use an external stage when loading data into snowflake '' @
     ''or don't use any of them if you want ot use table stages.''"

definition missing_key_error :: "string \<Rightarrow> string" where
  "missing_key_error k = ''Required key is missing from config: ['' @ k @ '']''"

definition no_target_schema_error :: string where
  "no_target_schema_error =
     ''Neither 'default_target_schema' (string) nor 'schema_mapping' (object) keys set in config.''"

definition validate_config :: "py_dict \<Rightarrow> string list" where
  "validate_config config =
     (let s3_bucket = py_truthy (py_get config ''s3_bucket'');
          stage = py_truthy (py_get config ''stage'');
          (required_config_keys, errors) =
             (if s3_bucket \<and> stage then (s3_required_config_keys, [])
              else if \<not> s3_bucket \<and> \<not> stage then (snowflake_required_config_keys, [])
              else ([], [only_one_stage_key_error]));
          errors = errors @
             map missing_key_error
               (filter (\<lambda>k. \<not> py_truthy (py_get config k)) required_config_keys);
          config_default_target_schema = py_get config ''default_target_schema'';
          config_schema_mapping = py_get config ''schema_mapping''
      in if \<not> py_truthy config_default_target_schema \<and> \<not> py_truthy config_schema_mapping
         then errors @ [no_target_schema_error]
         else errors)"

section \<open>Column names\<close>







definition safe_column_name :: "string \<Rightarrow> string" where
  "safe_column_name name = py_upper (''\"'' @ name @ ''\"'')"

definition column_clause :: "string \<Rightarrow> py_dict \<Rightarrow> py_error + string" where
  "column_clause name schema_property =
     (case column_type schema_property of
        Inl e \<Rightarrow> Inl e
      | Inr t \<Rightarrow> Inr (safe_column_name name @ '' '' @ t))"

section \<open>Stream names and query tags\<close>

text \<open>
  \<^verbatim>\<open>s.split(sep)\<close> cuts at every occurrence of \<open>sep\<close>, found left to right without
  overlap, and raises \<^verbatim>\<open>ValueError\<close> on an empty separator. \<open>split_from\<close> carries
  the characters of the segment under construction, last one first.
\<close>

function split_from :: "string \<Rightarrow> string \<Rightarrow> string \<Rightarrow> string list" where
  "split_from sep acc s =
     (if sep = [] then [rev acc @ s]
      else if s = [] then [rev acc]
      else if prefix sep s then rev acc # split_from sep [] (drop (length sep) s)
      else split_from sep (hd s # acc) (tl s))"
  by pat_completeness auto
termination
  by (relation "measure (\<lambda>(sep, acc, s). length s)") auto

definition py_split :: "string \<Rightarrow> string \<Rightarrow> py_error + string list" where
  "py_split s sep =
     (if sep = [] then Inl (ValueError ''empty separator'') else Inr (split_from sep [] s))"

record stream_dict =
  catalog_name :: "string option"
  schema_name :: "string option"
  table_name :: string

definition stream_name_to_dict :: "string \<Rightarrow> string \<Rightarrow> py_error + stream_dict" where
  "stream_name_to_dict stream_name separator =
     (case py_split stream_name separator of
        Inl e \<Rightarrow> Inl e
      | Inr s \<Rightarrow>
          let r = \<lparr>catalog_name = None, schema_name = None, table_name = stream_name\<rparr>;
              r = (if length s = 2
                   then r\<lparr>schema_name := Some (s ! 0), table_name := s ! 1\<rparr> else r);
              r = (if length s > 2
                   then r\<lparr>catalog_name := Some (s ! 0), schema_name := Some (s ! 1),
                          table_name := py_join ''_'' (drop 2 s)\<rparr> else r)
          in Inr r)"

text \<open>
  \<^verbatim>\<open>s.replace(old, new)\<close> for a non-empty \<open>old\<close>: every occurrence, left to right
  without overlap.
\<close>

function py_replace :: "string \<Rightarrow> string \<Rightarrow> string \<Rightarrow> string" where
  "py_replace old new s =
     (if old = [] \<or> s = [] then s
      else if prefix old s then new @ py_replace old new (drop (length old) s)
      else hd s # py_replace old new (tl s))"
  by pat_completeness auto
termination
  by (relation "measure (\<lambda>(old, new, s). length s)") auto

text \<open>
  \<^verbatim>\<open>create_query_tag(query_tag_pattern, schema, table)\<close>. The loop runs over the
  dict literal in its written order: the \<^verbatim>\<open>{schema}\<close> token first, then the
  \<^verbatim>\<open>{table}\<close> token on the text the first replacement produced.
\<close>

definition py_or_default :: "string option \<Rightarrow> string \<Rightarrow> string" where
  "py_or_default x dflt = (case x of None \<Rightarrow> dflt | Some s \<Rightarrow> if s = [] then dflt else s)"

definition replace_token :: "string \<times> string \<Rightarrow> string \<Rightarrow> string" where
  "replace_token kv query_tag =
     (if sublist (fst kv) query_tag then py_replace (fst kv) (snd kv) query_tag else query_tag)"

definition create_query_tag :: "string option \<Rightarrow> string option \<Rightarrow> string option \<Rightarrow> string option"
  where
  "create_query_tag query_tag_pattern schema table =
     (case query_tag_pattern of
        None \<Rightarrow> None
      | Some pattern \<Rightarrow>
          if pattern = [] then None
          else Some (fold replace_token
                       [(''{schema}'', py_or_default schema ''unknown-schema''),
                        (''{table}'', py_or_default table ''unknown-table'')]
                       pattern))"

section \<open>Dicts and subscripts\<close>





section \<open>Schema flattening\<close>







section \<open>Record flattening\<close>













section \<open>Table reconciliation\<close>

text \<open>
  The part of a \<^verbatim>\<open>DbSync\<close> object that \<^verbatim>\<open>update_columns\<close> reads. The values of
  \<^verbatim>\<open>self.flatten_schema\<close> are the property dicts that \<^verbatim>\<open>flatten_schema\<close>
  returned. A row of the table cache, or of \<^verbatim>\<open>get_table_columns\<close>, is a dict with
  the four keys below; an empty cache is falsy, as \<^verbatim>\<open>None\<close> is.
\<close>

record column_row =
  SCHEMA_NAME :: string
  TABLE_NAME :: string
  COLUMN_NAME :: string
  DATA_TYPE :: string

record db_sync =
  self_schema_name :: string
  self_stream :: string
  self_flatten_schema :: "(string \<times> py_dict) list"
  self_table_cache :: "column_row list"

text \<open>
  The warehouse as the methods see it: the statements \<^verbatim>\<open>self.query\<close> has run, in
  order, every one accepted, and the number of times the clock was read. A run gets the
  clock as a function from that number to the text \<^verbatim>\<open>time.strftime("%Y%m%d_%H%M")\<close>
  returns, and the answers of \<^verbatim>\<open>get_table_columns\<close> before and after its
  statements.
\<close>

record warehouse =
  executed :: "string list"
  clock_reads :: nat

definition query :: "string \<Rightarrow> warehouse \<Rightarrow> warehouse" where
  "query q w = w\<lparr>executed := executed w @ [q]\<rparr>"

definition py_str_opt :: "string option \<Rightarrow> string" where
  "py_str_opt x = (case x of None \<Rightarrow> ''None'' | Some s \<Rightarrow> s)"

definition dbsync_table_name :: "db_sync \<Rightarrow> string \<Rightarrow> bool \<Rightarrow> bool \<Rightarrow> py_error + string option" where
  "dbsync_table_name self stream_name is_temporary without_schema =
     (if stream_name = [] then Inr None
      else
        (case stream_name_to_dict stream_name ''-'' of
           Inl e \<Rightarrow> Inl e
         | Inr stream_dict \<Rightarrow>
             let sf_table_name =
                   py_lower (py_replace ''-'' ''_'' (py_replace ''.'' ''_'' (table_name stream_dict)));
                 sf_table_name =
                   (if is_temporary then sf_table_name @ ''_temp'' else sf_table_name)
             in if without_schema then Inr (Some (''\"'' @ py_upper sf_table_name @ ''\"''))
                else Inr (Some (self_schema_name self @ ''.\"'' @ py_upper sf_table_name @ ''\"''))))"

definition add_column_query :: "string \<Rightarrow> string \<Rightarrow> string" where
  "add_column_query table column = ''ALTER TABLE '' @ table @ '' ADD COLUMN '' @ column"

definition version_column_query :: "string \<Rightarrow> string \<Rightarrow> string \<Rightarrow> string" where
  "version_column_query table column_name now =
     ''ALTER TABLE '' @ table @ '' RENAME COLUMN '' @ column_name @ '' TO \"'' @
     py_replace ''\"'' [] column_name @ ''_'' @ now @ ''\"''"

definition add_column :: "db_sync \<Rightarrow> string \<Rightarrow> string \<Rightarrow> warehouse \<Rightarrow> py_error + warehouse" where
  "add_column self column stream w =
     (case dbsync_table_name self stream False False of
        Inl e \<Rightarrow> Inl e
      | Inr t \<Rightarrow> Inr (query (add_column_query (py_str_opt t) column) w))"

definition version_column ::
    "db_sync \<Rightarrow> (nat \<Rightarrow> string) \<Rightarrow> string \<Rightarrow> string \<Rightarrow> warehouse \<Rightarrow> py_error + warehouse" where
  "version_column self clock column_name stream w =
     (case dbsync_table_name self stream False False of
        Inl e \<Rightarrow> Inl e
      | Inr t \<Rightarrow>
          Inr (query (version_column_query (py_str_opt t) column_name (clock (clock_reads w)))
                 (w\<lparr>clock_reads := Suc (clock_reads w)\<rparr>)))"

text \<open>
  A list comprehension with a condition, over functions that may raise: the first error
  ends it.
\<close>

fun comprehension :: "('a \<Rightarrow> py_error + 'b option) \<Rightarrow> 'a list \<Rightarrow> py_error + 'b list" where
  "comprehension f [] = Inr []"
| "comprehension f (x # xs) =
     (case f x of
        Inl e \<Rightarrow> Inl e
      | Inr None \<Rightarrow> comprehension f xs
      | Inr (Some y) \<Rightarrow>
          (case comprehension f xs of Inl e \<Rightarrow> Inl e | Inr ys \<Rightarrow> Inr (y # ys)))"

text \<open>
  \<^verbatim>\<open>columns_dict\<close>: a later row with the same upper-cased column name replaces an
  earlier one.
\<close>

definition find_columns :: "db_sync \<Rightarrow> string option \<Rightarrow> column_row list \<Rightarrow> column_row list" where
  "find_columns self tname all_table_columns =
     filter (\<lambda>x. SCHEMA_NAME x = py_upper (self_schema_name self)
                \<and> Some (''\"'' @ py_upper (TABLE_NAME x) @ ''\"'') = tname)
       all_table_columns"

definition columns_dict_of :: "column_row list \<Rightarrow> string \<Rightarrow> column_row option" where
  "columns_dict_of columns = map_of (rev (map (\<lambda>column. (py_upper (COLUMN_NAME column), column)) columns))"

definition column_to_add ::
    "(string \<Rightarrow> column_row option) \<Rightarrow> string \<times> py_dict \<Rightarrow> py_error + string option" where
  "column_to_add columns_dict item =
     (if columns_dict (py_upper (fst item)) = None
      then (case column_clause (fst item) (snd item) of
              Inl e \<Rightarrow> Inl e | Inr clause \<Rightarrow> Inr (Some clause))
      else Inr None)"

definition column_to_replace ::
    "(string \<Rightarrow> column_row option) \<Rightarrow> string \<times> py_dict \<Rightarrow> py_error + (string \<times> string) option"
  where
  "column_to_replace columns_dict item =
     (case columns_dict (py_upper (fst item)) of
        None \<Rightarrow> Inr None
      | Some column \<Rightarrow>
          (case column_type (snd item) of
             Inl e \<Rightarrow> Inl e
           | Inr t \<Rightarrow>
               if py_upper (DATA_TYPE column) \<noteq> py_upper t \<and> py_upper t \<noteq> ''TIMESTAMP_NTZ''
               then (case column_clause (fst item) (snd item) of
                       Inl e \<Rightarrow> Inl e
                     | Inr clause \<Rightarrow> Inr (Some (safe_column_name (fst item), clause)))
               else Inr None))"

fun add_columns :: "db_sync \<Rightarrow> string \<Rightarrow> string list \<Rightarrow> warehouse \<Rightarrow> warehouse \<times> py_error option" where
  "add_columns self stream [] w = (w, None)"
| "add_columns self stream (column # columns) w =
     (case add_column self column stream w of
        Inl e \<Rightarrow> (w, Some e)
      | Inr w' \<Rightarrow> add_columns self stream columns w')"

fun replace_columns ::
    "db_sync \<Rightarrow> (nat \<Rightarrow> string) \<Rightarrow> string \<Rightarrow> (string \<times> string) list \<Rightarrow> warehouse
       \<Rightarrow> warehouse \<times> py_error option" where
  "replace_columns self clock stream [] w = (w, None)"
| "replace_columns self clock stream ((column_name, column) # columns) w =
     (case version_column self clock column_name stream w of
        Inl e \<Rightarrow> (w, Some e)
      | Inr w' \<Rightarrow>
          (case add_column self column stream w' of
             Inl e \<Rightarrow> (w', Some e)
           | Inr w'' \<Rightarrow> replace_columns self clock stream columns w''))"

definition update_columns ::
    "db_sync \<Rightarrow> column_row list \<Rightarrow> column_row list \<Rightarrow> (nat \<Rightarrow> string) \<Rightarrow> warehouse
       \<Rightarrow> warehouse \<times> (py_error + db_sync)" where
  "update_columns self live refreshed clock w =
     (let stream = self_stream self in
      case dbsync_table_name self stream False True of
        Inl e \<Rightarrow> (w, Inl e)
      | Inr tname \<Rightarrow>
          let all_table_columns =
                (if self_table_cache self \<noteq> [] then self_table_cache self else live);
              columns = find_columns self tname all_table_columns;
              columns_dict = columns_dict_of columns
          in
          (case comprehension (column_to_add columns_dict) (self_flatten_schema self) of
             Inl e \<Rightarrow> (w, Inl e)
           | Inr columns_to_add \<Rightarrow>
               (case add_columns self stream columns_to_add w of
                  (w1, Some e) \<Rightarrow> (w1, Inl e)
                | (w1, None) \<Rightarrow>
                    (case comprehension (column_to_replace columns_dict)
                            (self_flatten_schema self) of
                       Inl e \<Rightarrow> (w1, Inl e)
                     | Inr columns_to_replace \<Rightarrow>
                         (case replace_columns self clock stream columns_to_replace w1 of
                            (w2, Some e) \<Rightarrow> (w2, Inl e)
                          | (w2, None) \<Rightarrow>
                              if self_table_cache self \<noteq> []
                                 \<and> (length columns_to_add > 0 \<or> columns_to_replace \<noteq> [])
                              then (w2, Inr (self\<lparr>self_table_cache := refreshed\<rparr>))
                              else (w2, Inr self))))))"

section \<open>Load through the ingestion service\<close>

text \<open>
  The generator \<^verbatim>\<open>_increment_value\<close> of \<^verbatim>\<open>load_via_snowpipe\<close>: its two local
  variables, and what one \<^verbatim>\<open>next()\<close> yields and leaves behind.
\<close>

record increment_value =
  previous :: int
  current :: int

definition increment_value_start :: increment_value where
  "increment_value_start = \<lparr>previous = 0, current = 1\<rparr>"

definition increment_value_next :: "bool \<Rightarrow> increment_value \<Rightarrow> int \<times> increment_value" where
  "increment_value_next exponentially g =
     (let yielded = (if exponentially then 2 ^ nat (current g + previous g)
                     else current g + previous g + 30);
          g = g\<lparr>current := current g + previous g\<rparr>;
          g = g\<lparr>previous := current g - previous g\<rparr>
      in (yielded, g))"

text \<open>The generator after \<open>n\<close> values were taken, and the value it yields then.\<close>

fun increment_value_after :: "bool \<Rightarrow> nat \<Rightarrow> increment_value" where
  "increment_value_after exponentially 0 = increment_value_start"
| "increment_value_after exponentially (Suc n) =
     snd (increment_value_next exponentially (increment_value_after exponentially n))"

definition wait_time :: "bool \<Rightarrow> nat \<Rightarrow> int" where
  "wait_time exponentially n =
     fst (increment_value_next exponentially (increment_value_after exponentially n))"

text \<open>
  The submission loop. The ingestion service is a function from the number of the
  attempt to what \<^verbatim>\<open>ingest_files\<close> does then. The loop keeps the retries left, the
  generator, the attempts made and the waits slept. On the branch that ends the retries
  the source calls \<^verbatim>\<open>self.logger.critcal\<close>; the logger is a \<^verbatim>\<open>logging.Logger\<close>,
  which has \<^verbatim>\<open>critical\<close> and no attribute of that spelling, so the attribute lookup
  raises before \<^verbatim>\<open>sys.exit(1)\<close> is reached. A loop that never ends has no result.
\<close>

datatype ingest_result = Accepted | Raises_HTTPError

record submission =
  retries :: int
  backoff :: increment_value
  attempts :: nat
  slept :: "int list"

definition submission_start :: "int \<Rightarrow> submission" where
  "submission_start max_retry =
     \<lparr>retries = max_retry, backoff = increment_value_start, attempts = 0, slept = []\<rparr>"

partial_function (option) submit_loop ::
    "(nat \<Rightarrow> ingest_result) \<Rightarrow> submission \<Rightarrow> ((py_error + unit) \<times> submission) option" where
  "submit_loop ingest_files s =
     (case ingest_files (attempts s) of
        Accepted \<Rightarrow> Some (Inr (), s\<lparr>attempts := Suc (attempts s)\<rparr>)
      | Raises_HTTPError \<Rightarrow>
          (let (w, g) = increment_value_next True (backoff s);
               s = s\<lparr>attempts := Suc (attempts s), slept := slept s @ [w], backoff := g,
                     retries := retries s - 1\<rparr>
           in if retries s = 0 then Some (Inl (AttributeError ''critcal''), s)
              else submit_loop ingest_files s))"

text \<open>\<^verbatim>\<open>retries = self.connection_config.get('max_retry', 5)\<close>, for an integer setting.\<close>

definition max_retry_of :: "py_dict \<Rightarrow> int" where
  "max_retry_of config = (case map_of config ''max_retry'' of Some (JInt n) \<Rightarrow> n | _ \<Rightarrow> 5)"

text \<open>
  The polling loop: \<^verbatim>\<open>get_history\<close> is a function from the number of the poll to
  whether the answer lists a file. It returns the waits slept before the poll that did.
\<close>

partial_function (option) poll_loop ::
    "(nat \<Rightarrow> bool) \<Rightarrow> nat \<Rightarrow> increment_value \<Rightarrow> int list \<Rightarrow> int list option" where
  "poll_loop history_has_files polls g waits =
     (if history_has_files polls then Some waits
      else (let (w, g) = increment_value_next False g
            in poll_loop history_has_files (Suc polls) g (waits @ [w])))"

section \<open>Facts about the generator, splitting and dicts\<close>

lemma increment_value_after_Suc:
  "current (increment_value_after b (Suc n)) =
     current (increment_value_after b n) + previous (increment_value_after b n)"
  "previous (increment_value_after b (Suc n)) = current (increment_value_after b n)"
  by (simp_all add: increment_value_next_def Let_def)

declare increment_value_after.simps(2) [simp del]

lemma increment_value_after_pos:
  "1 \<le> current (increment_value_after b n) \<and> 0 \<le> previous (increment_value_after b n)"
proof (induction n)
  case 0
  show ?case by (simp add: increment_value_start_def)
next
  case (Suc n)
  then show ?case
    by (simp add: increment_value_after_Suc)
qed

lemma wait_time_linear_mode:
  "wait_time False n = current (increment_value_after False (Suc n)) + 30"
  by (simp add: wait_time_def increment_value_next_def Let_def increment_value_after.simps(2))

lemma wait_time_exponential_mode:
  "wait_time True n = 2 ^ nat (current (increment_value_after True (Suc n)))"
  by (simp add: wait_time_def increment_value_next_def Let_def increment_value_after.simps(2))

lemma increment_value_next_after:
  "increment_value_next b (increment_value_after b n) =
     (wait_time b n, increment_value_after b (Suc n))"
  by (simp add: wait_time_def increment_value_after.simps(2))

declare split_from.simps [simp del]

lemma split_from_not_empty: "split_from sep acc s \<noteq> []"
proof (induction sep acc s rule: split_from.induct)
  case (1 sep acc s)
  then show ?case by (subst split_from.simps) simp
qed

lemma py_join_Cons: "xs \<noteq> [] \<Longrightarrow> py_join sep (x # xs) = x @ sep @ py_join sep xs"
  by (cases xs) simp_all

lemma py_join_split_from: "py_join sep (split_from sep acc s) = rev acc @ s"
proof (induction sep acc s rule: split_from.induct)
  case (1 sep acc s)
  show ?case
  proof (cases "sep = [] \<or> s = []")
    case True
    then show ?thesis by (subst split_from.simps) auto
  next
    case False
    show ?thesis
    proof (cases "prefix sep s")
      case True
      then have s: "s = sep @ drop (length sep) s"
        by (auto simp: prefix_def)
      have "py_join sep (split_from sep acc s) =
          rev acc @ sep @ py_join sep (split_from sep [] (drop (length sep) s))"
        using False True
        by (subst split_from.simps) (simp add: py_join_Cons split_from_not_empty)
      also have "\<dots> = rev acc @ sep @ drop (length sep) s"
        using "1.IH"(1) False True by simp
      finally show ?thesis using s by simp
    next
      case no: False
      from False have s: "s = hd s # tl s" by simp
      have "py_join sep (split_from sep acc s) =
          py_join sep (split_from sep (hd s # acc) (tl s))"
        using False no by (subst split_from.simps) simp
      also have "\<dots> = rev (hd s # acc) @ tl s"
        using "1.IH"(2) False no by simp
      finally show ?thesis using s by (metis append.assoc append_Cons append_Nil rev.simps(2))
    qed
  qed
qed




section \<open>The type mapping follows its decision table\<close>

text \<open>
  C4. For a property descriptor whose \<open>type\<close> is present and iterable, \<open>column_type\<close>
  returns the first matching rule of the table, and \<open>column_trans\<close> returns
  \<open>parse_json\<close> exactly for the structured types, \<open>to_binary\<close> exactly for the
  remaining descriptors of format \<open>binary\<close>, and the empty transform otherwise.
\<close>

theorem column_type_trans_decision_table:
  assumes ty: "py_getitem schema_property ''type'' = Inr ty"
    and iter: "py_in ''object'' ty = Inr b"
  defines "has \<equiv> \<lambda>s. py_in s ty = Inr True"
    and "fmt \<equiv> py_get schema_property ''format''"
  defines "structured \<equiv> has ''object'' \<or> has ''array''"
    and "formatted \<equiv> fmt = JStr ''date-time'' \<or> fmt = JStr ''time'' \<or> fmt = JStr ''binary''"
  shows "(structured \<longrightarrow> column_type schema_property = Inr ''variant'')
    \<and> (\<not> structured \<and> fmt = JStr ''date-time'' \<longrightarrow>
          column_type schema_property = Inr ''timestamp_ntz'')
    \<and> (\<not> structured \<and> fmt = JStr ''time'' \<longrightarrow> column_type schema_property = Inr ''time'')
    \<and> (\<not> structured \<and> fmt = JStr ''binary'' \<longrightarrow> column_type schema_property = Inr ''binary'')
    \<and> (\<not> structured \<and> \<not> formatted \<and> has ''number'' \<longrightarrow>
          column_type schema_property = Inr ''float'')
    \<and> (\<not> structured \<and> \<not> formatted \<and> \<not> has ''number'' \<and> has ''integer'' \<and> has ''string'' \<longrightarrow>
          column_type schema_property = Inr ''text'')
    \<and> (\<not> structured \<and> \<not> formatted \<and> \<not> has ''number'' \<and> has ''integer'' \<and> \<not> has ''string'' \<longrightarrow>
          column_type schema_property = Inr ''number'')
    \<and> (\<not> structured \<and> \<not> formatted \<and> \<not> has ''number'' \<and> \<not> has ''integer'' \<and> has ''boolean'' \<longrightarrow>
          column_type schema_property = Inr ''boolean'')
    \<and> (\<not> structured \<and> \<not> formatted \<and> \<not> has ''number'' \<and> \<not> has ''integer'' \<and> \<not> has ''boolean'' \<longrightarrow>
          column_type schema_property = Inr ''text'')
    \<and> (column_trans schema_property = Inr ''parse_json'' \<longleftrightarrow> structured)
    \<and> (column_trans schema_property = Inr ''to_binary'' \<longleftrightarrow> \<not> structured \<and> fmt = JStr ''binary'')
    \<and> (column_trans schema_property = Inr [] \<longleftrightarrow> \<not> structured \<and> fmt \<noteq> JStr ''binary'')"
proof -
  have fmt_eq: "(if py_has_key ''format'' schema_property
                 then py_get schema_property ''format'' else JNull) = fmt"
    by (simp add: fmt_def py_get_def py_has_key_def split: option.splits)
  have ct: "column_type schema_property =
      Inr (if structured then ''variant''
           else if fmt = JStr ''date-time'' then ''timestamp_ntz''
           else if fmt = JStr ''time'' then ''time''
           else if fmt = JStr ''binary'' then ''binary''
           else if has ''number'' then ''float''
           else if has ''integer'' \<and> has ''string'' then ''text''
           else if has ''integer'' then ''number''
           else if has ''boolean'' then ''boolean''
           else ''text'')"
    unfolding column_type_def ty structured_def has_def
    by (simp only: sum.case Let_def fmt_eq iter)
  have tr: "column_trans schema_property =
      Inr (if structured then ''parse_json''
           else if fmt = JStr ''binary'' then ''to_binary'' else [])"
    unfolding column_trans_def ty structured_def has_def fmt_def
    by (simp only: sum.case iter)
  show ?thesis
    unfolding ct tr formatted_def by simp
qed

theorem column_type_trans_decision_table_witness:
  "column_type [(''type'', JArr [JStr ''null'', JStr ''integer''])] = Inr ''number''
   \<and> column_trans [(''type'', JArr [JStr ''null'', JStr ''integer''])] = Inr []
   \<and> column_type [(''type'', JArr [JStr ''null'', JStr ''object'']), (''format'', JStr ''binary'')]
       = Inr ''variant''
   \<and> column_trans [(''type'', JArr [JStr ''null'', JStr ''object'']), (''format'', JStr ''binary'')]
       = Inr ''parse_json''
   \<and> column_type [(''type'', JStr ''string''), (''format'', JStr ''date-time'')]
       = Inr ''timestamp_ntz''"
proof -
  let ?p = "[(''type'', JArr [JStr ''null'', JStr ''integer''])]"
  let ?q = "[(''type'', JArr [JStr ''null'', JStr ''object'']), (''format'', JStr ''binary'')]"
  let ?r = "[(''type'', JStr ''string''), (''format'', JStr ''date-time'')]"
  have p: "py_getitem ?p ''type'' = Inr (JArr [JStr ''null'', JStr ''integer''])"
    by (simp add: py_getitem_def)
  have q: "py_getitem ?q ''type'' = Inr (JArr [JStr ''null'', JStr ''object''])"
    by (simp add: py_getitem_def)
  have r: "py_getitem ?r ''type'' = Inr (JStr ''string'')"
    by (simp add: py_getitem_def)
  have r_iter: "py_in ''object'' (JStr ''string'') = Inr False"
    by (simp add: sublist_code)
  from column_type_trans_decision_table [OF p, of "False"]
       column_type_trans_decision_table [OF q, of "True"]
       column_type_trans_decision_table [OF r r_iter]
  show ?thesis
    by (simp add: py_get_def sublist_code)
qed

section \<open>The waits of the two loops\<close>

lemma poll_loop_from:
  assumes "history_has_files (p + k)" and "\<forall>i<k. \<not> history_has_files (p + i)"
  shows "poll_loop history_has_files p (increment_value_after False p) waits =
           Some (waits @ map (wait_time False) [p..<p + k])"
  using assms
proof (induction k arbitrary: p waits)
  case 0
  then show ?case by (subst poll_loop.simps) simp
next
  case (Suc k)
  from Suc.prems(2) have now: "\<not> history_has_files p" by force
  have later: "history_has_files (Suc p + k)" using Suc.prems(1) by simp
  have none: "\<forall>i<k. \<not> history_has_files (Suc p + i)"
  proof (intro allI impI)
    fix i assume "i < k"
    then have "Suc i < Suc k" by simp
    with Suc.prems(2) have "\<not> history_has_files (p + Suc i)" by blast
    then show "\<not> history_has_files (Suc p + i)" by simp
  qed
  have step: "poll_loop history_has_files p (increment_value_after False p) waits =
      poll_loop history_has_files (Suc p) (increment_value_after False (Suc p))
        (waits @ [wait_time False p])"
    by (subst poll_loop.simps) (simp add: now increment_value_next_after)
  have interval: "[p..<p + Suc k] = p # [Suc p..<Suc p + k]"
    by (simp add: upt_conv_Cons)
  show ?case
    unfolding step Suc.IH [OF later none] interval by simp
qed

text \<open>
  C7, as amended. The waits of the polling loop are 31, 32, 33, 35, 38, ...: each is the
  sum of the two before it less 30, so they grow strictly, by increments that are
  themselves the Fibonacci numbers and not one fixed amount. The polling loop sleeps
  exactly these waits, in order, until the history lists a file.
\<close>

theorem poll_waits_grow_by_previous_increment:
  "wait_time False 0 = 31 \<and> wait_time False 1 = 32
   \<and> wait_time False (Suc (Suc n)) = wait_time False (Suc n) + wait_time False n - 30
   \<and> wait_time False n < wait_time False (Suc n)
   \<and> (wait_time False (Suc (Suc (Suc n))) - wait_time False (Suc (Suc n)) =
        (wait_time False (Suc (Suc n)) - wait_time False (Suc n))
        + (wait_time False (Suc n) - wait_time False n))
   \<and> (history_has_files m \<and> (\<forall>i<m. \<not> history_has_files i) \<longrightarrow>
        poll_loop history_has_files 0 increment_value_start [] =
          Some (map (wait_time False) [0..<m]))"
proof -
  have w0: "wait_time False 0 = 31"
    by (simp add: wait_time_linear_mode increment_value_after_Suc increment_value_start_def)
  have w1: "wait_time False 1 = 32"
    by (simp add: wait_time_linear_mode increment_value_after_Suc increment_value_start_def)
  have rec: "wait_time False (Suc (Suc k)) = wait_time False (Suc k) + wait_time False k - 30"
    for k
    by (simp add: wait_time_linear_mode increment_value_after_Suc)
  have mono: "wait_time False n < wait_time False (Suc n)"
    using increment_value_after_pos [of False n]
    by (simp add: wait_time_linear_mode increment_value_after_Suc)
  have incr: "wait_time False (Suc (Suc (Suc n))) - wait_time False (Suc (Suc n)) =
        (wait_time False (Suc (Suc n)) - wait_time False (Suc n))
        + (wait_time False (Suc n) - wait_time False n)"
    using rec [of "Suc n"] rec [of n] by simp
  have loop: "poll_loop history_has_files 0 increment_value_start [] =
          Some (map (wait_time False) [0..<m])"
    if "history_has_files m" "\<forall>i<m. \<not> history_has_files i"
    using poll_loop_from [of history_has_files 0 m "[]"] that by simp
  from w0 w1 rec mono incr loop show ?thesis by blast
qed

theorem poll_waits_grow_by_previous_increment_witness:
  "wait_time False 4 < wait_time False 5
   \<and> wait_time False 5 = wait_time False 4 + wait_time False 3 - 30
   \<and> poll_loop (\<lambda>i. i = 3) 0 increment_value_start [] = Some [31, 32, 33]"
proof -
  have n3: "Suc (Suc 3) = 5" "Suc 3 = 4" "Suc 4 = 5" by simp_all
  have h: "(\<lambda>i. i = 3) (3::nat) \<and> (\<forall>i<3. \<not> (\<lambda>i. i = 3) (i::nat))" by simp
  have vals: "map (wait_time False) [0..<3] = [31, 32, 33]"
    by code_simp
  from poll_waits_grow_by_previous_increment [of 3 "\<lambda>i. i = 3" 3]
       poll_waits_grow_by_previous_increment [of 4 "\<lambda>i. i = 3" 3] h vals
  show ?thesis by (simp add: n3)
qed

theorem poll_waits_not_linear_counterexample:
  "wait_time False 2 - wait_time False 1 = 1 \<and> wait_time False 3 - wait_time False 2 = 2"
  by code_simp

section \<open>The submission loop\<close>

lemma submit_loop_accepted:
  assumes "ingest_files (attempts s) = Accepted"
  shows "submit_loop ingest_files s = Some (Inr (), s\<lparr>attempts := Suc (attempts s)\<rparr>)"
  by (subst submit_loop.simps) (simp add: assms)

lemma submit_loop_failed:
  assumes "ingest_files (attempts s) = Raises_HTTPError"
    and "backoff s = increment_value_after True (attempts s)"
  shows "submit_loop ingest_files s =
     (if retries s = 1
      then Some (Inl (AttributeError ''critcal''),
                 s\<lparr>attempts := Suc (attempts s),
                   slept := slept s @ [wait_time True (attempts s)],
                   backoff := increment_value_after True (Suc (attempts s)),
                   retries := 0\<rparr>)
      else submit_loop ingest_files
             (s\<lparr>attempts := Suc (attempts s),
                slept := slept s @ [wait_time True (attempts s)],
                backoff := increment_value_after True (Suc (attempts s)),
                retries := retries s - 1\<rparr>))"
  by (subst submit_loop.simps) (simp add: assms increment_value_next_after)

text \<open>
  With \<open>r \<ge> 1\<close> retries left and every attempt failing, the loop makes exactly \<open>r\<close>
  more attempts, sleeps after each, and ends in the attribute error of the misspelt
  logger call.
\<close>

lemma submit_loop_exhausts:
  assumes "\<forall>i<r. ingest_files (attempts s + i) = Raises_HTTPError"
    and "backoff s = increment_value_after True (attempts s)"
    and "retries s = int (Suc r')" and "r = Suc r'"
  shows "submit_loop ingest_files s =
     Some (Inl (AttributeError ''critcal''),
           s\<lparr>attempts := attempts s + r,
             slept := slept s @ map (wait_time True) [attempts s..<attempts s + r],
             backoff := increment_value_after True (attempts s + r),
             retries := 0\<rparr>)"
  using assms
proof (induction r' arbitrary: r s)
  case 0
  then have fail: "ingest_files (attempts s) = Raises_HTTPError" by force
  show ?case
    using 0 by (simp add: submit_loop_failed [of ingest_files s, OF fail "0.prems"(2)])
next
  case (Suc r')
  then have fail: "ingest_files (attempts s) = Raises_HTTPError" by force
  let ?s = "s\<lparr>attempts := Suc (attempts s),
                slept := slept s @ [wait_time True (attempts s)],
                backoff := increment_value_after True (Suc (attempts s)),
                retries := retries s - 1\<rparr>"
  have rest: "\<forall>i<Suc r'. ingest_files (attempts ?s + i) = Raises_HTTPError"
  proof (intro allI impI)
    fix i assume "i < Suc r'"
    then have "Suc i < r" using Suc.prems(4) by simp
    with Suc.prems(1) have "ingest_files (attempts s + Suc i) = Raises_HTTPError" by blast
    then show "ingest_files (attempts ?s + i) = Raises_HTTPError" by simp
  qed
  have ih: "submit_loop ingest_files ?s =
     Some (Inl (AttributeError ''critcal''),
           ?s\<lparr>attempts := attempts ?s + Suc r',
             slept := slept ?s @ map (wait_time True) [attempts ?s..<attempts ?s + Suc r'],
             backoff := increment_value_after True (attempts ?s + Suc r'),
             retries := 0\<rparr>)"
    by (rule Suc.IH [OF rest]) (simp_all add: Suc.prems(3))
  have more: "retries s \<noteq> 1" using Suc.prems(3) by simp
  have step: "submit_loop ingest_files s = submit_loop ingest_files ?s"
    using submit_loop_failed [of ingest_files s, OF fail Suc.prems(2)] more by simp
  have interval: "[attempts s..<attempts s + r] =
      attempts s # [Suc (attempts s)..<Suc (attempts s) + Suc r']"
    using Suc.prems(4) by (simp add: upt_conv_Cons)
  have final: "?s\<lparr>attempts := attempts ?s + Suc r',
             slept := slept ?s @ map (wait_time True) [attempts ?s..<attempts ?s + Suc r'],
             backoff := increment_value_after True (attempts ?s + Suc r'),
             retries := 0\<rparr> =
           s\<lparr>attempts := attempts s + r,
             slept := slept s @ map (wait_time True) [attempts s..<attempts s + r],
             backoff := increment_value_after True (attempts s + r),
             retries := 0\<rparr>"
    unfolding interval using Suc.prems(4) by simp
  show ?case
    unfolding step ih final ..
qed

text \<open>
  With no retry left to count down to zero the test \<^verbatim>\<open>if not retries\<close> never holds:
  the loop does not return while the attempts keep failing.
\<close>

lemma submit_loop_never_returns:
  assumes "\<forall>i. ingest_files i = Raises_HTTPError" and "retries s \<le> 0"
  shows "submit_loop ingest_files s = None"
proof (rule ccontr)
  assume "submit_loop ingest_files s \<noteq> None"
  then obtain y where y: "submit_loop ingest_files s = Some y" by auto
  have "(\<forall>i. ingest_files i = Raises_HTTPError) \<longrightarrow> 0 < retries s"
  proof (rule submit_loop.raw_induct
      [where P = "\<lambda>f s y. (\<forall>i. f i = Raises_HTTPError) \<longrightarrow> 0 < retries s", OF _ y])
    fix loop :: "(nat \<Rightarrow> ingest_result) \<Rightarrow> submission \<Rightarrow> ((py_error + unit) \<times> submission) option"
    fix f s y
    assume IH: "\<And>g t z. loop g t = Some z \<Longrightarrow> (\<forall>i. g i = Raises_HTTPError) \<longrightarrow> 0 < retries t"
    assume body: "(case f (attempts s) of
        Accepted \<Rightarrow> Some (Inr (), s\<lparr>attempts := Suc (attempts s)\<rparr>)
      | Raises_HTTPError \<Rightarrow>
          (let (w, g) = increment_value_next True (backoff s);
               s = s\<lparr>attempts := Suc (attempts s), slept := slept s @ [w], backoff := g,
                     retries := retries s - 1\<rparr>
           in if retries s = 0 then Some (Inl (AttributeError ''critcal''), s)
              else loop f s)) = Some y"
    show "(\<forall>i. f i = Raises_HTTPError) \<longrightarrow> 0 < retries s"
    proof
      assume fails: "\<forall>i. f i = Raises_HTTPError"
      show "0 < retries s"
      proof (cases "retries s - 1 = 0")
        case True
        then show ?thesis by simp
      next
        case False
        obtain w g where wg: "increment_value_next True (backoff s) = (w, g)"
          by (cases "increment_value_next True (backoff s)")
        from body fails False wg
        have "loop f (s\<lparr>attempts := Suc (attempts s), slept := slept s @ [w], backoff := g,
                     retries := retries s - 1\<rparr>) = Some y"
          by (simp add: Let_def)
        from IH [OF this] fails show ?thesis by simp
      qed
    qed
  qed
  with assms show False by simp
qed

text \<open>
  C5. The loop at the smallest settings: with \<^verbatim>\<open>max_retry = 1\<close> and a failing
  service it makes one attempt, sleeps 2 seconds and ends in the attribute error, not
  in \<^verbatim>\<open>sys.exit(1)\<close>; with \<^verbatim>\<open>max_retry = 0\<close> it never returns. An accepted
  second attempt ends the loop after two attempts.
\<close>

theorem submit_loop_on_exhaustion:
  "submit_loop (\<lambda>i. Raises_HTTPError) (submission_start 1) =
     Some (Inl (AttributeError ''critcal''),
           \<lparr>retries = 0, backoff = increment_value_after True 1, attempts = 1, slept = [2]\<rparr>)
   \<and> submit_loop (\<lambda>i. Raises_HTTPError) (submission_start 0) = None
   \<and> submit_loop (\<lambda>i. if i = 1 then Accepted else Raises_HTTPError) (submission_start 5) =
     Some (Inr (),
           \<lparr>retries = 4, backoff = increment_value_after True 1, attempts = 2, slept = [2]\<rparr>)"
proof -
  have fails: "\<forall>i<1. (\<lambda>i. Raises_HTTPError) (attempts (submission_start 1) + i) = Raises_HTTPError"
    by simp
  have start: "backoff (submission_start 1) =
      increment_value_after True (attempts (submission_start 1))"
    by (simp add: submission_start_def)
  have left: "retries (submission_start 1) = int (Suc 0)"
    by (simp add: submission_start_def)
  have w: "wait_time True 0 = 2"
    by (simp add: wait_time_exponential_mode increment_value_after_Suc
          increment_value_start_def)
  have one: "submit_loop (\<lambda>i. Raises_HTTPError) (submission_start 1) =
     Some (Inl (AttributeError ''critcal''),
           \<lparr>retries = 0, backoff = increment_value_after True 1, attempts = 1, slept = [2]\<rparr>)"
    unfolding submit_loop_exhausts [OF fails start left One_nat_def]
    by (simp add: submission_start_def w)
  have zero: "submit_loop (\<lambda>i. Raises_HTTPError) (submission_start 0) = None"
    by (rule submit_loop_never_returns) (simp_all add: submission_start_def)
  let ?f = "\<lambda>i. if i = (1::nat) then Accepted else Raises_HTTPError"
  let ?s1 = "\<lparr>retries = 4, backoff = increment_value_after True 1, attempts = 1, slept = [2]\<rparr>"
  have first: "submit_loop ?f (submission_start 5) = submit_loop ?f ?s1"
    using submit_loop_failed [of ?f "submission_start 5"]
    by (simp add: submission_start_def w)
  have second: "submit_loop ?f ?s1 =
     Some (Inr (),
           \<lparr>retries = 4, backoff = increment_value_after True 1, attempts = 2, slept = [2]\<rparr>)"
    using submit_loop_accepted [of ?f ?s1] by simp
  from one zero first second show ?thesis by simp
qed

section \<open>Stream names\<close>

text \<open>
  C9. For a non-empty separator the stream name splits into at least one segment, and
  the segments joined by the separator give the name back. One segment: the table name
  is the whole name, with no schema and no catalog. Two segments: schema and table.
  More: catalog, schema, and the remaining segments joined by an underscore as the
  table. \<open>sales-orders\<close> with separator \<open>-\<close> is schema \<open>sales\<close>, table \<open>orders\<close>.
\<close>

theorem stream_name_to_dict_by_segments:
  assumes "separator \<noteq> []"
  shows "\<exists>s. py_split stream_name separator = Inr s
      \<and> s \<noteq> [] \<and> py_join separator s = stream_name
      \<and> (length s = 1 \<longrightarrow>
           stream_name_to_dict stream_name separator =
             Inr \<lparr>catalog_name = None, schema_name = None, table_name = stream_name\<rparr>)
      \<and> (length s = 2 \<longrightarrow>
           stream_name_to_dict stream_name separator =
             Inr \<lparr>catalog_name = None, schema_name = Some (s ! 0), table_name = s ! 1\<rparr>)
      \<and> (length s > 2 \<longrightarrow>
           stream_name_to_dict stream_name separator =
             Inr \<lparr>catalog_name = Some (s ! 0), schema_name = Some (s ! 1),
                  table_name = py_join ''_'' (drop 2 s)\<rparr>)
      \<and> stream_name_to_dict ''sales-orders'' ''-'' =
           Inr \<lparr>catalog_name = None, schema_name = Some ''sales'', table_name = ''orders''\<rparr>"
proof -
  let ?s = "split_from separator [] stream_name"
  have split: "py_split stream_name separator = Inr ?s"
    using assms by (simp add: py_split_def)
  have join: "py_join separator ?s = stream_name"
    by (simp add: py_join_split_from)
  have example: "stream_name_to_dict ''sales-orders'' ''-'' =
      Inr \<lparr>catalog_name = None, schema_name = Some ''sales'', table_name = ''orders''\<rparr>"
    by code_simp
  show ?thesis
    using split split_from_not_empty [of separator "[]" stream_name] join example
    by (intro exI [of _ ?s]) (simp add: stream_name_to_dict_def Let_def)
qed

theorem stream_name_to_dict_by_segments_witness:
  "py_split ''db.public.my.table'' ''.'' = Inr [''db'', ''public'', ''my'', ''table'']
   \<and> stream_name_to_dict ''db.public.my.table'' ''.'' =
        Inr \<lparr>catalog_name = Some ''db'', schema_name = Some ''public'', table_name = ''my_table''\<rparr>
   \<and> stream_name_to_dict ''orders'' ''-'' =
        Inr \<lparr>catalog_name = None, schema_name = None, table_name = ''orders''\<rparr>"
proof -
  have sep: "''.'' \<noteq> []" "''-'' \<noteq> []" by simp_all
  have a: "py_split ''db.public.my.table'' ''.'' = Inr [''db'', ''public'', ''my'', ''table'']"
    by code_simp
  have b: "py_split ''orders'' ''-'' = Inr [''orders'']"
    by code_simp
  from stream_name_to_dict_by_segments [OF sep(1), of "''db.public.my.table''"]
       stream_name_to_dict_by_segments [OF sep(2), of "''orders''"] a b
  show ?thesis by auto
qed

section \<open>Staging keys in the configuration\<close>

text \<open>
  C6, as amended. The two staging keys go together: a configuration that sets exactly
  one of \<open>s3_bucket\<close> and \<open>stage\<close> gets the error about the two keys. Setting both
  selects the external stage and setting neither selects the table stage; the
  configuration is then accepted exactly when every required key of the selected mode
  and a target schema are set.
\<close>

theorem validate_config_staging_modes:
  "(py_truthy (py_get config ''s3_bucket'') \<noteq> py_truthy (py_get config ''stage'') \<longrightarrow>
      only_one_stage_key_error \<in> set (validate_config config))
   \<and> (validate_config config = [] \<longleftrightarrow>
        ((py_truthy (py_get config ''s3_bucket'') \<and> py_truthy (py_get config ''stage'')
            \<and> (\<forall>k\<in>set s3_required_config_keys. py_truthy (py_get config k)))
         \<or> (\<not> py_truthy (py_get config ''s3_bucket'') \<and> \<not> py_truthy (py_get config ''stage'')
            \<and> (\<forall>k\<in>set snowflake_required_config_keys. py_truthy (py_get config k))))
        \<and> (py_truthy (py_get config ''default_target_schema'')
            \<or> py_truthy (py_get config ''schema_mapping'')))"
proof -
  let ?b = "py_truthy (py_get config ''s3_bucket'')"
  let ?s = "py_truthy (py_get config ''stage'')"
  consider (both) "?b" "?s" | (neither) "\<not> ?b" "\<not> ?s" | (one) "?b \<noteq> ?s" by blast
  then show ?thesis
  proof cases
    case both
    then show ?thesis
      unfolding validate_config_def Let_def
      by (auto simp: filter_empty_conv)
  next
    case neither
    then show ?thesis
      unfolding validate_config_def Let_def
      by (auto simp: filter_empty_conv)
  next
    case one
    then show ?thesis
      unfolding validate_config_def Let_def
      by auto
  qed
qed

theorem validate_config_staging_modes_witness:
  "only_one_stage_key_error \<in> set (validate_config
      [(''account'', JStr ''a''), (''dbname'', JStr ''d''), (''user'', JStr ''u''),
       (''password'', JStr ''p''), (''warehouse'', JStr ''w''), (''file_format'', JStr ''f''),
       (''stage'', JStr ''s.t''), (''default_target_schema'', JStr ''x'')])
   \<and> validate_config
      [(''account'', JStr ''a''), (''dbname'', JStr ''d''), (''user'', JStr ''u''),
       (''password'', JStr ''p''), (''warehouse'', JStr ''w''), (''file_format'', JStr ''f''),
       (''default_target_schema'', JStr ''x'')] = []"
proof -
  let ?one = "[(''account'', JStr ''a''), (''dbname'', JStr ''d''), (''user'', JStr ''u''),
       (''password'', JStr ''p''), (''warehouse'', JStr ''w''), (''file_format'', JStr ''f''),
       (''stage'', JStr ''s.t''), (''default_target_schema'', JStr ''x'')]"
  let ?none = "[(''account'', JStr ''a''), (''dbname'', JStr ''d''), (''user'', JStr ''u''),
       (''password'', JStr ''p''), (''warehouse'', JStr ''w''), (''file_format'', JStr ''f''),
       (''default_target_schema'', JStr ''x'')]"
  have differ: "py_truthy (py_get ?one ''s3_bucket'') \<noteq> py_truthy (py_get ?one ''stage'')"
    by (simp add: py_get_def)
  have complete: "\<not> py_truthy (py_get ?none ''s3_bucket'') \<and> \<not> py_truthy (py_get ?none ''stage'')
       \<and> (\<forall>k\<in>set snowflake_required_config_keys. py_truthy (py_get ?none k))
       \<and> py_truthy (py_get ?none ''default_target_schema'')"
    by (simp add: py_get_def snowflake_required_config_keys_def)
  from validate_config_staging_modes [of ?one] differ
  have one: "only_one_stage_key_error \<in> set (validate_config ?one)" by blast
  from validate_config_staging_modes [of ?none] complete
  have none: "validate_config ?none = []" by blast
  from one none show ?thesis by blast
qed

theorem validate_config_both_keys_counterexample:
  "validate_config
      [(''account'', JStr ''a''), (''dbname'', JStr ''d''), (''user'', JStr ''u''),
       (''password'', JStr ''p''), (''warehouse'', JStr ''w''), (''s3_bucket'', JStr ''b''),
       (''stage'', JStr ''s.t''), (''file_format'', JStr ''f''),
       (''default_target_schema'', JStr ''x'')] = []"
  by (simp add: validate_config_def py_get_def s3_required_config_keys_def)

section \<open>Column names and their compression\<close>













section \<open>Query tags\<close>

declare py_replace.simps [simp del]

lemma py_replace_absent:
  "\<not> sublist old s \<Longrightarrow> py_replace old new s = s"
proof (induction old new s rule: py_replace.induct)
  case (1 old new s)
  show ?case
  proof (cases "old = [] \<or> s = []")
    case True
    then show ?thesis by (subst py_replace.simps) simp
  next
    case False
    then obtain c cs where s: "s = c # cs" by (cases s) auto
    from "1.prems" s have no: "\<not> prefix old s" "\<not> sublist old cs"
      by (auto simp: sublist_Cons_right)
    have "py_replace old new s = hd s # py_replace old new (tl s)"
      using False no by (subst py_replace.simps) simp
    also have "py_replace old new (tl s) = tl s"
      using "1.IH"(2) False no s by simp
    finally show ?thesis using s by simp
  qed
qed

lemma replace_token_replace: "replace_token kv q = py_replace (fst kv) (snd kv) q"
  by (simp add: replace_token_def py_replace_absent)

text \<open>Replacing is cutting at the token and joining the pieces with the new text.\<close>

lemma py_join_split_from_replace:
  "py_join new (split_from old acc s) = rev acc @ py_replace old new s"
proof (induction old acc s rule: split_from.induct)
  case (1 sep acc s)
  show ?case
  proof (cases "sep = [] \<or> s = []")
    case True
    then show ?thesis
      by (subst split_from.simps, subst py_replace.simps) auto
  next
    case False
    show ?thesis
    proof (cases "prefix sep s")
      case True
      have "py_join new (split_from sep acc s) =
          rev acc @ new @ py_join new (split_from sep [] (drop (length sep) s))"
        using False True
        by (subst split_from.simps) (simp add: py_join_Cons split_from_not_empty)
      also have "\<dots> = rev acc @ new @ py_replace sep new (drop (length sep) s)"
        using "1.IH"(1) False True by simp
      also have "\<dots> = rev acc @ py_replace sep new s"
        using False True by (subst (2) py_replace.simps) simp
      finally show ?thesis .
    next
      case no: False
      from False have s: "s = hd s # tl s" by simp
      have "py_join new (split_from sep acc s) =
          py_join new (split_from sep (hd s # acc) (tl s))"
        using False no by (subst split_from.simps) simp
      also have "\<dots> = rev (hd s # acc) @ py_replace sep new (tl s)"
        using "1.IH"(2) False no by simp
      also have "\<dots> = rev acc @ py_replace sep new s"
        using False no by (subst (2) py_replace.simps) simp
      finally show ?thesis .
    qed
  qed
qed

text \<open>No piece of a split holds the separator.\<close>

lemma sublist_prefix_drop:
  assumes "sublist xs ys" and "xs \<noteq> []"
  shows "\<exists>i<length ys. prefix xs (drop i ys)"
proof -
  from assms(1) obtain ps ss where ys: "ys = ps @ xs @ ss" by (auto simp: sublist_def)
  have "prefix xs (drop (length ps) ys)" using ys by simp
  moreover have "length ps < length ys" using ys assms(2) by (cases xs) auto
  ultimately show ?thesis by blast
qed

lemma split_from_pieces:
  assumes "sep \<noteq> []"
    and "\<forall>i<length acc. \<not> prefix sep (drop i (rev acc @ s))"
  shows "\<forall>p\<in>set (split_from sep acc s). \<not> sublist sep p"
  using assms
proof (induction sep acc s rule: split_from.induct)
  case (1 sep acc s)
  have acc_free: "\<not> sublist sep (rev acc)"
  proof
    assume "sublist sep (rev acc)"
    with "1.prems"(1) obtain i where i: "i < length (rev acc)" "prefix sep (drop i (rev acc))"
      using sublist_prefix_drop by blast
    then have "prefix sep (drop i (rev acc @ s))"
      by (simp add: prefix_def) (metis append.assoc)
    with i(1) "1.prems"(2) show False by simp
  qed
  show ?case
  proof (cases "s = []")
    case True
    then show ?thesis
      using "1.prems"(1) acc_free by (subst split_from.simps) simp
  next
    case False
    show ?thesis
    proof (cases "prefix sep s")
      case True
      have "\<forall>p\<in>set (split_from sep [] (drop (length sep) s)). \<not> sublist sep p"
        using "1.IH"(1) "1.prems"(1) False True by simp
      then show ?thesis
        using "1.prems"(1) False True acc_free by (subst split_from.simps) simp
    next
      case no: False
      from False have s: "s = hd s # tl s" by simp
      have same: "rev (hd s # acc) @ tl s = rev acc @ s"
        using s by (metis append.assoc append_Cons append_Nil rev.simps(2))
      have inv: "\<forall>i<length (hd s # acc). \<not> prefix sep (drop i (rev (hd s # acc) @ tl s))"
      proof (intro allI impI)
        fix i assume i: "i < length (hd s # acc)"
        show "\<not> prefix sep (drop i (rev (hd s # acc) @ tl s))"
        proof (cases "i < length acc")
          case True
          with "1.prems"(2) same show ?thesis by simp
        next
          case False
          with i have "i = length acc" by simp
          with no same show ?thesis by simp
        qed
      qed
      have "\<forall>p\<in>set (split_from sep (hd s # acc) (tl s)). \<not> sublist sep p"
        using "1.IH"(2) "1.prems"(1) False no inv by simp
      then show ?thesis
        using "1.prems"(1) False no by (subst split_from.simps) simp
    qed
  qed
qed

lemma py_replace_by_pieces:
  assumes "old \<noteq> []"
  shows "\<exists>ps. s = py_join old ps \<and> (\<forall>p\<in>set ps. \<not> sublist old p)
            \<and> py_replace old new s = py_join new ps"
proof -
  let ?ps = "split_from old [] s"
  have "s = py_join old ?ps" by (simp add: py_join_split_from)
  moreover have "\<forall>p\<in>set ?ps. \<not> sublist old p"
    using split_from_pieces [OF assms, of "[]" s] by simp
  moreover have "py_replace old new s = py_join new ?ps"
    by (simp add: py_join_split_from_replace)
  ultimately show ?thesis by blast
qed

text \<open>
  C10, as amended. Without a pattern, or with the empty pattern, the result is
  \<^verbatim>\<open>None\<close>. Otherwise the pattern is cut at every \<open>{schema}\<close> token and the pieces
  are joined by the schema name (or \<open>unknown-schema\<close>); the text so obtained, the
  inserted schema name included, is cut at every \<open>{table}\<close> token and its pieces are
  joined by the table name (or \<open>unknown-table\<close>). The pieces are left as they are.
\<close>

theorem create_query_tag_replaces_in_turn:
  "create_query_tag None schema table = None
   \<and> create_query_tag (Some []) schema table = None
   \<and> (pattern \<noteq> [] \<longrightarrow>
        (\<exists>ps qs.
           pattern = py_join ''{schema}'' ps \<and> (\<forall>p\<in>set ps. \<not> sublist ''{schema}'' p)
         \<and> py_join (py_or_default schema ''unknown-schema'') ps = py_join ''{table}'' qs
         \<and> (\<forall>q\<in>set qs. \<not> sublist ''{table}'' q)
         \<and> create_query_tag (Some pattern) schema table =
              Some (py_join (py_or_default table ''unknown-table'') qs)))"
proof -
  let ?S = "py_or_default schema ''unknown-schema''"
  let ?T = "py_or_default table ''unknown-table''"
  have tag: "create_query_tag (Some pattern) schema table =
      Some (py_replace ''{table}'' ?T (py_replace ''{schema}'' ?S pattern))"
    if "pattern \<noteq> []"
    using that by (simp add: create_query_tag_def replace_token_replace)
  obtain ps where ps: "pattern = py_join ''{schema}'' ps"
      "\<forall>p\<in>set ps. \<not> sublist ''{schema}'' p"
      "py_replace ''{schema}'' ?S pattern = py_join ?S ps"
    using py_replace_by_pieces [of "''{schema}''" pattern ?S] by auto
  obtain qs where qs: "py_join ?S ps = py_join ''{table}'' qs"
      "\<forall>q\<in>set qs. \<not> sublist ''{table}'' q"
      "py_replace ''{table}'' ?T (py_join ?S ps) = py_join ?T qs"
    using py_replace_by_pieces [of "''{table}''" "py_join ?S ps" ?T] by auto
  have "\<exists>ps qs.
           pattern = py_join ''{schema}'' ps \<and> (\<forall>p\<in>set ps. \<not> sublist ''{schema}'' p)
         \<and> py_join ?S ps = py_join ''{table}'' qs
         \<and> (\<forall>q\<in>set qs. \<not> sublist ''{table}'' q)
         \<and> create_query_tag (Some pattern) schema table = Some (py_join ?T qs)"
    if "pattern \<noteq> []"
    using tag [OF that] ps qs by (intro exI [of _ ps] exI [of _ qs]) simp
  then show ?thesis by (simp add: create_query_tag_def)
qed

theorem create_query_tag_replaces_in_turn_witness:
  "create_query_tag (Some ''Loading {schema}.{table} now'') (Some ''sales'') None =
     Some ''Loading sales.unknown-table now''
   \<and> (\<exists>ps qs.
           ''Loading {schema}.{table} now'' = py_join ''{schema}'' ps
         \<and> py_join (py_or_default (Some ''sales'') ''unknown-schema'') ps = py_join ''{table}'' qs
         \<and> create_query_tag (Some ''Loading {schema}.{table} now'') (Some ''sales'') None =
              Some (py_join (py_or_default None ''unknown-table'') qs))"
proof -
  have ne: "''Loading {schema}.{table} now'' \<noteq> []" by simp
  have val: "create_query_tag (Some ''Loading {schema}.{table} now'') (Some ''sales'') None =
     Some ''Loading sales.unknown-table now''"
    by code_simp
  from create_query_tag_replaces_in_turn
         [of "Some ''sales''" None "''Loading {schema}.{table} now''"] ne
  have "\<exists>ps qs.
           ''Loading {schema}.{table} now'' = py_join ''{schema}'' ps
         \<and> py_join (py_or_default (Some ''sales'') ''unknown-schema'') ps = py_join ''{table}'' qs
         \<and> create_query_tag (Some ''Loading {schema}.{table} now'') (Some ''sales'') None =
              Some (py_join (py_or_default None ''unknown-table'') qs)"
    by blast
  with val show ?thesis by blast
qed

theorem create_query_tag_schema_named_like_token_counterexample:
  "create_query_tag (Some ''{schema}'') (Some ''{table}'') (Some ''t'') = Some ''t''"
  by code_simp

section \<open>Colliding column names\<close>









section \<open>Values of a flattened record\<close>









section \<open>Columns whose type changed\<close>

lemma comprehension_complete:
  assumes "comprehension f xs = Inr ys" and "x \<in> set xs"
  shows "f x = Inr None \<or> (\<exists>y. f x = Inr (Some y) \<and> y \<in> set ys)"
  using assms
proof (induction xs arbitrary: ys)
  case Nil
  then show ?case by simp
next
  case (Cons a xs)
  show ?case
  proof (cases "f a")
    case (Inl e)
    with Cons.prems(1) show ?thesis by simp
  next
    case (Inr o1)
    show ?thesis
    proof (cases o1)
      case None
      with Inr Cons.prems(1) have rest: "comprehension f xs = Inr ys" by simp
      show ?thesis
      proof (cases "x = a")
        case True
        with Inr None show ?thesis by simp
      next
        case False
        with Cons.prems(2) have "x \<in> set xs" by simp
        from Cons.IH [OF rest this] show ?thesis .
      qed
    next
      case (Some y)
      with Inr Cons.prems(1) obtain ys' where
        rest: "comprehension f xs = Inr ys'" and ys: "ys = y # ys'"
        by (cases "comprehension f xs") auto
      show ?thesis
      proof (cases "x = a")
        case True
        with Inr Some ys show ?thesis by simp
      next
        case False
        with Cons.prems(2) have "x \<in> set xs" by simp
        from Cons.IH [OF rest this] ys show ?thesis by auto
      qed
    qed
  qed
qed

lemma comprehension_sound:
  assumes "comprehension f xs = Inr ys" and "y \<in> set ys"
  shows "\<exists>x\<in>set xs. f x = Inr (Some y)"
  using assms
proof (induction xs arbitrary: ys)
  case Nil
  then show ?case by simp
next
  case (Cons a xs)
  show ?case
  proof (cases "f a")
    case (Inl e)
    with Cons.prems(1) show ?thesis by simp
  next
    case (Inr o1)
    show ?thesis
    proof (cases o1)
      case None
      with Inr Cons.prems(1) have rest: "comprehension f xs = Inr ys" by simp
      from Cons.IH [OF rest Cons.prems(2)] show ?thesis by simp
    next
      case (Some y')
      with Inr Cons.prems(1) obtain ys' where
        rest: "comprehension f xs = Inr ys'" and ys: "ys = y' # ys'"
        by (cases "comprehension f xs") auto
      show ?thesis
      proof (cases "y = y'")
        case True
        with Inr Some show ?thesis by simp
      next
        case False
        with Cons.prems(2) ys have "y \<in> set ys'" by simp
        from Cons.IH [OF rest this] show ?thesis by simp
      qed
    qed
  qed
qed

lemma add_columns_executed:
  assumes "dbsync_table_name self stream False False = Inr full_name"
  shows "add_columns self stream columns w =
     (w\<lparr>executed := executed w @ map (add_column_query (py_str_opt full_name)) columns\<rparr>, None)"
proof (induction columns arbitrary: w)
  case Nil
  show ?case by simp
next
  case (Cons c columns)
  show ?case
    by (simp add: add_column_def assms query_def Cons.IH)
qed

text \<open>
  The loop over \<^verbatim>\<open>columns_to_replace\<close>: nothing fails, every statement is the rename
  or the add of a listed column, and every listed column gets its rename followed at
  once by its add.
\<close>

lemma replace_columns_executed:
  assumes "dbsync_table_name self stream False False = Inr full_name"
  shows "\<exists>w2 issued. replace_columns self clock stream columns w = (w2, None)
      \<and> executed w2 = executed w @ issued
      \<and> (\<forall>q\<in>set issued. \<exists>column_name column. (column_name, column) \<in> set columns
            \<and> ((\<exists>i. q = version_column_query (py_str_opt full_name) column_name (clock i))
               \<or> q = add_column_query (py_str_opt full_name) column))
      \<and> (\<forall>column_name column. (column_name, column) \<in> set columns \<longrightarrow>
            (\<exists>pre post i. issued =
               pre @ [version_column_query (py_str_opt full_name) column_name (clock i),
                      add_column_query (py_str_opt full_name) column] @ post))"
proof (induction columns arbitrary: w)
  case Nil
  show ?case by simp
next
  case (Cons nc columns)
  obtain n c where nc: "nc = (n, c)" by (cases nc)
  let ?t = "py_str_opt full_name"
  let ?v = "version_column_query ?t n (clock (clock_reads w))"
  let ?a = "add_column_query ?t c"
  let ?w = "query ?a (query ?v (w\<lparr>clock_reads := Suc (clock_reads w)\<rparr>))"
  have step: "replace_columns self clock stream (nc # columns) w =
      replace_columns self clock stream columns ?w"
    by (simp add: nc version_column_def add_column_def assms)
  from Cons.IH [of ?w] obtain w2 issued where
    run: "replace_columns self clock stream columns ?w = (w2, None)"
    and ex: "executed w2 = executed ?w @ issued"
    and origin: "\<And>q. q \<in> set issued \<Longrightarrow> \<exists>column_name column. (column_name, column) \<in> set columns
            \<and> ((\<exists>i. q = version_column_query ?t column_name (clock i))
               \<or> q = add_column_query ?t column)"
    and pairs: "\<And>column_name column. (column_name, column) \<in> set columns \<Longrightarrow>
            (\<exists>pre post i. issued =
               pre @ [version_column_query ?t column_name (clock i),
                      add_column_query ?t column] @ post)"
    by (elim exE conjE) (rule that, assumption, assumption, blast, blast)
  let ?issued = "[?v, ?a] @ issued"
  have ex': "executed w2 = executed w @ ?issued"
    using ex by (simp add: query_def)
  have origin': "\<exists>column_name column. (column_name, column) \<in> set (nc # columns)
            \<and> ((\<exists>i. q = version_column_query ?t column_name (clock i))
               \<or> q = add_column_query ?t column)"
    if q: "q \<in> set ?issued" for q
  proof -
    from q consider "q = ?v" | "q = ?a" | "q \<in> set issued" by auto
    then show ?thesis
    proof cases
      case 1
      then have "(n, c) \<in> set (nc # columns)
          \<and> ((\<exists>i. q = version_column_query ?t n (clock i)) \<or> q = add_column_query ?t c)"
        using nc by auto
      then show ?thesis by (intro exI [of _ n] exI [of _ c])
    next
      case 2
      then have "(n, c) \<in> set (nc # columns)
          \<and> ((\<exists>i. q = version_column_query ?t n (clock i)) \<or> q = add_column_query ?t c)"
        using nc by auto
      then show ?thesis by (intro exI [of _ n] exI [of _ c])
    next
      case 3
      from origin [OF 3] obtain n' c' where
        "(n', c') \<in> set columns"
        "(\<exists>i. q = version_column_query ?t n' (clock i)) \<or> q = add_column_query ?t c'"
        by (elim exE conjE)
      then have "(n', c') \<in> set (nc # columns)
          \<and> ((\<exists>i. q = version_column_query ?t n' (clock i)) \<or> q = add_column_query ?t c')"
        by simp
      then show ?thesis by (intro exI [of _ n'] exI [of _ c'])
    qed
  qed
  have pairs': "\<exists>pre post i. ?issued =
               pre @ [version_column_query ?t column_name (clock i),
                      add_column_query ?t column] @ post"
    if m: "(column_name, column) \<in> set (nc # columns)" for column_name column
  proof (cases "(column_name, column) = (n, c)")
    case True
    then have "?issued = [] @ [version_column_query ?t column_name (clock (clock_reads w)),
                      add_column_query ?t column] @ issued"
      by simp
    then show ?thesis by (intro exI)
  next
    case False
    with m nc have "(column_name, column) \<in> set columns" by auto
    from pairs [OF this] obtain pre post i where
      "issued = pre @ [version_column_query ?t column_name (clock i),
                      add_column_query ?t column] @ post"
      by (elim exE)
    then have "?issued = ([?v, ?a] @ pre) @ [version_column_query ?t column_name (clock i),
                      add_column_query ?t column] @ post"
      by simp
    then show ?thesis by (intro exI)
  qed
  have A: "replace_columns self clock stream (nc # columns) w = (w2, None)"
    using step run by simp
  have B: "\<forall>q\<in>set ?issued. \<exists>column_name column. (column_name, column) \<in> set (nc # columns)
            \<and> ((\<exists>i. q = version_column_query ?t column_name (clock i))
               \<or> q = add_column_query ?t column)"
    by (intro ballI) (rule origin')
  have C: "\<forall>column_name column. (column_name, column) \<in> set (nc # columns) \<longrightarrow>
            (\<exists>pre post i. ?issued =
               pre @ [version_column_query ?t column_name (clock i),
                      add_column_query ?t column] @ post)"
    by (intro allI impI) (rule pairs')
  show ?case
    by (intro exI [of _ w2] exI [of _ ?issued] conjI) (rule A ex' B C)+
qed

lemma column_clause_of_type:
  "column_type ps = Inr t \<Longrightarrow> column_clause name ps = Inr (safe_column_name name @ '' '' @ t)"
  by (simp add: column_clause_def)

lemma column_to_add_Some:
  assumes "column_to_add columns_dict (name, ps) = Inr (Some c)"
  shows "columns_dict (py_upper name) = None
     \<and> (\<exists>t. column_type ps = Inr t \<and> c = safe_column_name name @ '' '' @ t)"
proof -
  from assms have none: "columns_dict (py_upper name) = None"
    by (cases "columns_dict (py_upper name)") (simp_all add: column_to_add_def)
  with assms have "column_clause name ps = Inr c"
    by (cases "column_clause name ps") (simp_all add: column_to_add_def)
  then have "\<exists>t. column_type ps = Inr t \<and> c = safe_column_name name @ '' '' @ t"
    by (cases "column_type ps") (simp_all add: column_clause_def)
  with none show ?thesis by simp
qed

lemma column_to_replace_Some:
  assumes "column_to_replace columns_dict (name, ps) = Inr (Some (n, c))"
  shows "\<exists>column t. columns_dict (py_upper name) = Some column \<and> column_type ps = Inr t
     \<and> py_upper (DATA_TYPE column) \<noteq> py_upper t \<and> py_upper t \<noteq> ''TIMESTAMP_NTZ''
     \<and> n = safe_column_name name \<and> c = safe_column_name name @ '' '' @ t"
proof (cases "columns_dict (py_upper name)")
  case None
  with assms show ?thesis by (simp add: column_to_replace_def)
next
  case (Some column)
  show ?thesis
  proof (cases "column_type ps")
    case (Inl e)
    with assms Some show ?thesis by (simp add: column_to_replace_def)
  next
    case (Inr t)
    show ?thesis
    proof (cases "py_upper (DATA_TYPE column) \<noteq> py_upper t \<and> py_upper t \<noteq> ''TIMESTAMP_NTZ''")
      case True
      with assms Some Inr have "n = safe_column_name name \<and> c = safe_column_name name @ '' '' @ t"
        by (auto simp: column_to_replace_def column_clause_of_type [OF Inr])
      with Some Inr True show ?thesis by simp
    next
      case False
      with assms Some Inr have "False"
        by (simp add: column_to_replace_def)
      then show ?thesis ..
    qed
  qed
qed

lemma column_to_replace_changed:
  assumes "columns_dict (py_upper name) = Some column" and "column_type ps = Inr t"
    and "py_upper (DATA_TYPE column) \<noteq> py_upper t" and "py_upper t \<noteq> ''TIMESTAMP_NTZ''"
  shows "column_to_replace columns_dict (name, ps) =
     Inr (Some (safe_column_name name, safe_column_name name @ '' '' @ t))"
  using assms by (simp add: column_to_replace_def column_clause_of_type)

text \<open>
  C3. In a run of \<open>update_columns\<close> that raises no error: a column of the flattened schema
  that the table has under another declared type, and whose new type is not
  \<open>TIMESTAMP_NTZ\<close>, is renamed with the clock reading as suffix and, in the very next
  statement, added again under its name with the new type. Every statement of the run
  is the add of a column the table lacks, or the rename or add of such a changed column:
  none comes from a column of the table whose new type is \<open>TIMESTAMP_NTZ\<close>.
\<close>

theorem update_columns_versions_changed_columns:
  assumes run: "update_columns self live refreshed clock w = (w', Inr self')"
    and tn: "dbsync_table_name self (self_stream self) False True = Inr tname"
    and full: "dbsync_table_name self (self_stream self) False False = Inr full_name"
    and cd: "columns_dict = columns_dict_of (find_columns self tname
                (if self_table_cache self \<noteq> [] then self_table_cache self else live))"
    and table: "table = py_str_opt full_name"
  shows "(\<forall>name ps column t.
            (name, ps) \<in> set (self_flatten_schema self)
          \<and> columns_dict (py_upper name) = Some column \<and> column_type ps = Inr t
          \<and> py_upper (DATA_TYPE column) \<noteq> py_upper t \<and> py_upper t \<noteq> ''TIMESTAMP_NTZ'' \<longrightarrow>
            (\<exists>pre post i. executed w' =
               pre @ [version_column_query table (safe_column_name name) (clock i),
                      add_column_query table (safe_column_name name @ '' '' @ t)] @ post))
     \<and> (\<exists>issued. executed w' = executed w @ issued
          \<and> (\<forall>q\<in>set issued. \<exists>name ps t.
                (name, ps) \<in> set (self_flatten_schema self) \<and> column_type ps = Inr t
              \<and> ((columns_dict (py_upper name) = None
                    \<and> q = add_column_query table (safe_column_name name @ '' '' @ t))
                 \<or> ((\<exists>column. columns_dict (py_upper name) = Some column
                          \<and> py_upper (DATA_TYPE column) \<noteq> py_upper t)
                    \<and> py_upper t \<noteq> ''TIMESTAMP_NTZ''
                    \<and> ((\<exists>i. q = version_column_query table (safe_column_name name) (clock i))
                       \<or> q = add_column_query table (safe_column_name name @ '' '' @ t))))))"
proof -
  let ?fs = "self_flatten_schema self"
  let ?stream = "self_stream self"
  have unfold: "update_columns self live refreshed clock w =
     (case comprehension (column_to_add columns_dict) ?fs of
        Inl e \<Rightarrow> (w, Inl e)
      | Inr columns_to_add \<Rightarrow>
          (case add_columns self ?stream columns_to_add w of
             (w1, Some e) \<Rightarrow> (w1, Inl e)
           | (w1, None) \<Rightarrow>
               (case comprehension (column_to_replace columns_dict) ?fs of
                  Inl e \<Rightarrow> (w1, Inl e)
                | Inr columns_to_replace \<Rightarrow>
                    (case replace_columns self clock ?stream columns_to_replace w1 of
                       (w2, Some e) \<Rightarrow> (w2, Inl e)
                     | (w2, None) \<Rightarrow>
                         if self_table_cache self \<noteq> []
                            \<and> (length columns_to_add > 0 \<or> columns_to_replace \<noteq> [])
                         then (w2, Inr (self\<lparr>self_table_cache := refreshed\<rparr>))
                         else (w2, Inr self)))))"
    unfolding cd by (simp add: update_columns_def Let_def tn)
  obtain adds where adds: "comprehension (column_to_add columns_dict) ?fs = Inr adds"
    using run unfolding unfold
    by (cases "comprehension (column_to_add columns_dict) ?fs") simp_all
  let ?w1 = "w\<lparr>executed := executed w @ map (add_column_query table) adds\<rparr>"
  have w1: "add_columns self ?stream adds w = (?w1, None)"
    by (simp add: add_columns_executed [OF full] table)
  obtain reps where reps: "comprehension (column_to_replace columns_dict) ?fs = Inr reps"
    using run unfolding unfold adds
    by (cases "comprehension (column_to_replace columns_dict) ?fs") (simp_all add: w1)
  from replace_columns_executed [OF full, of clock reps ?w1] obtain w2 issued where
    w2: "replace_columns self clock ?stream reps ?w1 = (w2, None)"
    and ex2: "executed w2 = executed ?w1 @ issued"
    and origin: "\<And>q. q \<in> set issued \<Longrightarrow> \<exists>column_name column. (column_name, column) \<in> set reps
            \<and> ((\<exists>i. q = version_column_query table column_name (clock i))
               \<or> q = add_column_query table column)"
    and pairs: "\<And>column_name column. (column_name, column) \<in> set reps \<Longrightarrow>
            (\<exists>pre post i. issued =
               pre @ [version_column_query table column_name (clock i),
                      add_column_query table column] @ post)"
    unfolding table [symmetric]
    by (elim exE conjE) (rule that, assumption, assumption, blast, blast)
  have w': "w' = w2"
    using run unfolding unfold adds
    by (simp add: w1 reps w2 split: if_splits)
  let ?adds = "map (add_column_query table) adds"
  have ex: "executed w' = executed w @ (?adds @ issued)"
    using ex2 w' by simp
  have versioned: "\<exists>pre post i. executed w' =
               pre @ [version_column_query table (safe_column_name name) (clock i),
                      add_column_query table (safe_column_name name @ '' '' @ t)] @ post"
    if m: "(name, ps) \<in> set ?fs" and c: "columns_dict (py_upper name) = Some column"
      and t: "column_type ps = Inr t"
      and changed: "py_upper (DATA_TYPE column) \<noteq> py_upper t" "py_upper t \<noteq> ''TIMESTAMP_NTZ''"
    for name ps column t
  proof -
    have f: "column_to_replace columns_dict (name, ps) =
        Inr (Some (safe_column_name name, safe_column_name name @ '' '' @ t))"
      by (rule column_to_replace_changed [of columns_dict name column ps t, OF c t changed])
    from comprehension_complete [OF reps m] f
    have "(safe_column_name name, safe_column_name name @ '' '' @ t) \<in> set reps" by simp
    from pairs [OF this] obtain pre post i where
      "issued = pre @ [version_column_query table (safe_column_name name) (clock i),
                      add_column_query table (safe_column_name name @ '' '' @ t)] @ post"
      by (elim exE)
    with ex have "executed w' = (executed w @ ?adds @ pre)
         @ [version_column_query table (safe_column_name name) (clock i),
            add_column_query table (safe_column_name name @ '' '' @ t)] @ post"
      by simp
    then show ?thesis by (intro exI)
  qed
  have from_schema: "\<exists>name ps t.
                (name, ps) \<in> set ?fs \<and> column_type ps = Inr t
              \<and> ((columns_dict (py_upper name) = None
                    \<and> q = add_column_query table (safe_column_name name @ '' '' @ t))
                 \<or> ((\<exists>column. columns_dict (py_upper name) = Some column
                          \<and> py_upper (DATA_TYPE column) \<noteq> py_upper t)
                    \<and> py_upper t \<noteq> ''TIMESTAMP_NTZ''
                    \<and> ((\<exists>i. q = version_column_query table (safe_column_name name) (clock i))
                       \<or> q = add_column_query table (safe_column_name name @ '' '' @ t))))"
    if q: "q \<in> set (?adds @ issued)" for q
  proof (cases "q \<in> set ?adds")
    case True
    then obtain c where c: "c \<in> set adds" and qc: "q = add_column_query table c" by auto
    from comprehension_sound [OF adds c] obtain x where
      x: "x \<in> set ?fs" "column_to_add columns_dict x = Inr (Some c)" by (elim bexE)
    obtain name ps where nps: "x = (name, ps)" by (cases x)
    from column_to_add_Some [of columns_dict name ps c] x(2) nps obtain t where
      "columns_dict (py_upper name) = None" "column_type ps = Inr t"
      "c = safe_column_name name @ '' '' @ t"
      by auto
    with x(1) nps qc have "(name, ps) \<in> set ?fs \<and> column_type ps = Inr t
              \<and> ((columns_dict (py_upper name) = None
                    \<and> q = add_column_query table (safe_column_name name @ '' '' @ t))
                 \<or> ((\<exists>column. columns_dict (py_upper name) = Some column
                          \<and> py_upper (DATA_TYPE column) \<noteq> py_upper t)
                    \<and> py_upper t \<noteq> ''TIMESTAMP_NTZ''
                    \<and> ((\<exists>i. q = version_column_query table (safe_column_name name) (clock i))
                       \<or> q = add_column_query table (safe_column_name name @ '' '' @ t))))"
      by simp
    then show ?thesis by (intro exI)
  next
    case False
    with q have "q \<in> set issued" by simp
    from origin [OF this] obtain n c where
      nc: "(n, c) \<in> set reps"
      and qq: "(\<exists>i. q = version_column_query table n (clock i)) \<or> q = add_column_query table c"
      by (elim exE conjE)
    from comprehension_sound [OF reps nc] obtain x where
      x: "x \<in> set ?fs" "column_to_replace columns_dict x = Inr (Some (n, c))" by (elim bexE)
    obtain name ps where nps: "x = (name, ps)" by (cases x)
    from column_to_replace_Some [of columns_dict name ps n c] x(2) nps obtain column t where
      r: "columns_dict (py_upper name) = Some column" "column_type ps = Inr t"
        "py_upper (DATA_TYPE column) \<noteq> py_upper t" "py_upper t \<noteq> ''TIMESTAMP_NTZ''"
        "n = safe_column_name name" "c = safe_column_name name @ '' '' @ t"
      by auto
    have "(name, ps) \<in> set ?fs \<and> column_type ps = Inr t
              \<and> ((columns_dict (py_upper name) = None
                    \<and> q = add_column_query table (safe_column_name name @ '' '' @ t))
                 \<or> ((\<exists>column. columns_dict (py_upper name) = Some column
                          \<and> py_upper (DATA_TYPE column) \<noteq> py_upper t)
                    \<and> py_upper t \<noteq> ''TIMESTAMP_NTZ''
                    \<and> ((\<exists>i. q = version_column_query table (safe_column_name name) (clock i))
                       \<or> q = add_column_query table (safe_column_name name @ '' '' @ t))))"
      using x(1) nps r qq by auto
    then show ?thesis by (intro exI)
  qed
  have first: "\<forall>name ps column t.
            (name, ps) \<in> set ?fs
          \<and> columns_dict (py_upper name) = Some column \<and> column_type ps = Inr t
          \<and> py_upper (DATA_TYPE column) \<noteq> py_upper t \<and> py_upper t \<noteq> ''TIMESTAMP_NTZ'' \<longrightarrow>
            (\<exists>pre post i. executed w' =
               pre @ [version_column_query table (safe_column_name name) (clock i),
                      add_column_query table (safe_column_name name @ '' '' @ t)] @ post)"
  proof (intro allI impI)
    fix name ps column t
    assume h: "(name, ps) \<in> set ?fs
          \<and> columns_dict (py_upper name) = Some column \<and> column_type ps = Inr t
          \<and> py_upper (DATA_TYPE column) \<noteq> py_upper t \<and> py_upper t \<noteq> ''TIMESTAMP_NTZ''"
    show "\<exists>pre post i. executed w' =
               pre @ [version_column_query table (safe_column_name name) (clock i),
                      add_column_query table (safe_column_name name @ '' '' @ t)] @ post"
      by (rule versioned [of name ps column t]) (simp_all add: h)
  qed
  have second: "\<forall>q\<in>set (?adds @ issued). \<exists>name ps t.
                (name, ps) \<in> set ?fs \<and> column_type ps = Inr t
              \<and> ((columns_dict (py_upper name) = None
                    \<and> q = add_column_query table (safe_column_name name @ '' '' @ t))
                 \<or> ((\<exists>column. columns_dict (py_upper name) = Some column
                          \<and> py_upper (DATA_TYPE column) \<noteq> py_upper t)
                    \<and> py_upper t \<noteq> ''TIMESTAMP_NTZ''
                    \<and> ((\<exists>i. q = version_column_query table (safe_column_name name) (clock i))
                       \<or> q = add_column_query table (safe_column_name name @ '' '' @ t))))"
    by (intro ballI) (rule from_schema)
  show ?thesis
    by (intro conjI exI [of _ "?adds @ issued"]) (rule first ex second)+
qed

theorem update_columns_versions_changed_columns_witness:
  "update_columns
     \<lparr>self_schema_name = ''sales'', self_stream = ''sales-orders'',
      self_flatten_schema =
        [(''id'', [(''type'', JArr [JStr ''null'', JStr ''string''])]),
         (''at'', [(''type'', JArr [JStr ''string'']), (''format'', JStr ''date-time'')]),
         (''n'', [(''type'', JArr [JStr ''integer''])])],
      self_table_cache =
        [\<lparr>SCHEMA_NAME = ''SALES'', TABLE_NAME = ''ORDERS'', COLUMN_NAME = ''ID'',
          DATA_TYPE = ''NUMBER''\<rparr>,
         \<lparr>SCHEMA_NAME = ''SALES'', TABLE_NAME = ''ORDERS'', COLUMN_NAME = ''AT'',
          DATA_TYPE = ''TIMESTAMP_TZ''\<rparr>]\<rparr>
     [] [] (\<lambda>i. ''20260101_1200'') \<lparr>executed = [], clock_reads = 0\<rparr> =
   (\<lparr>executed =
       [''ALTER TABLE sales.\"ORDERS\" ADD COLUMN \"N\" number'',
        ''ALTER TABLE sales.\"ORDERS\" RENAME COLUMN \"ID\" TO \"ID_20260101_1200\"'',
        ''ALTER TABLE sales.\"ORDERS\" ADD COLUMN \"ID\" text''],
      clock_reads = 1\<rparr>,
    Inr \<lparr>self_schema_name = ''sales'', self_stream = ''sales-orders'',
      self_flatten_schema =
        [(''id'', [(''type'', JArr [JStr ''null'', JStr ''string''])]),
         (''at'', [(''type'', JArr [JStr ''string'']), (''format'', JStr ''date-time'')]),
         (''n'', [(''type'', JArr [JStr ''integer''])])],
      self_table_cache = []\<rparr>)
   \<and> (\<exists>pre post.
        [''ALTER TABLE sales.\"ORDERS\" ADD COLUMN \"N\" number'',
         ''ALTER TABLE sales.\"ORDERS\" RENAME COLUMN \"ID\" TO \"ID_20260101_1200\"'',
         ''ALTER TABLE sales.\"ORDERS\" ADD COLUMN \"ID\" text''] =
        pre @ [version_column_query ''sales.\"ORDERS\"'' (safe_column_name ''id'')
                 ''20260101_1200'',
               add_column_query ''sales.\"ORDERS\"'' (safe_column_name ''id'' @ '' '' @ ''text'')]
            @ post)"
proof -
  let ?cache = "[\<lparr>SCHEMA_NAME = ''SALES'', TABLE_NAME = ''ORDERS'', COLUMN_NAME = ''ID'',
          DATA_TYPE = ''NUMBER''\<rparr>,
         \<lparr>SCHEMA_NAME = ''SALES'', TABLE_NAME = ''ORDERS'', COLUMN_NAME = ''AT'',
          DATA_TYPE = ''TIMESTAMP_TZ''\<rparr>]"
  let ?fs = "[(''id'', [(''type'', JArr [JStr ''null'', JStr ''string''])]),
         (''at'', [(''type'', JArr [JStr ''string'']), (''format'', JStr ''date-time'')]),
         (''n'', [(''type'', JArr [JStr ''integer''])])]"
  let ?self = "\<lparr>self_schema_name = ''sales'', self_stream = ''sales-orders'',
      self_flatten_schema = ?fs, self_table_cache = ?cache\<rparr>"
  let ?self' = "\<lparr>self_schema_name = ''sales'', self_stream = ''sales-orders'',
      self_flatten_schema = ?fs, self_table_cache = []\<rparr>"
  let ?clock = "\<lambda>i::nat. ''20260101_1200''"
  let ?w = "\<lparr>executed = [], clock_reads = 0\<rparr>"
  let ?log = "[''ALTER TABLE sales.\"ORDERS\" ADD COLUMN \"N\" number'',
        ''ALTER TABLE sales.\"ORDERS\" RENAME COLUMN \"ID\" TO \"ID_20260101_1200\"'',
        ''ALTER TABLE sales.\"ORDERS\" ADD COLUMN \"ID\" text'']"
  let ?w' = "\<lparr>executed = ?log, clock_reads = 1\<rparr>"
  let ?col = "\<lparr>SCHEMA_NAME = ''SALES'', TABLE_NAME = ''ORDERS'', COLUMN_NAME = ''ID'',
          DATA_TYPE = ''NUMBER''\<rparr>"
  have run: "update_columns ?self [] [] ?clock ?w = (?w', Inr ?self')"
    by code_simp
  have tn: "dbsync_table_name ?self (self_stream ?self) False True = Inr (Some ''\"ORDERS\"'')"
    by code_simp
  have full: "dbsync_table_name ?self (self_stream ?self) False False =
      Inr (Some ''sales.\"ORDERS\"'')"
    by code_simp
  have entry: "(''id'', [(''type'', JArr [JStr ''null'', JStr ''string''])])
        \<in> set (self_flatten_schema ?self)
      \<and> columns_dict_of (find_columns ?self (Some ''\"ORDERS\"'')
            (if self_table_cache ?self \<noteq> [] then self_table_cache ?self else []))
          (py_upper ''id'') = Some ?col
      \<and> column_type [(''type'', JArr [JStr ''null'', JStr ''string''])] = Inr ''text''
      \<and> py_upper (DATA_TYPE ?col) \<noteq> py_upper ''text''
      \<and> py_upper ''text'' \<noteq> ''TIMESTAMP_NTZ''"
    by code_simp
  from update_columns_versions_changed_columns [OF run tn full refl refl] entry
  have "\<exists>pre post i. executed ?w' =
        pre @ [version_column_query (py_str_opt (Some ''sales.\"ORDERS\"''))
                 (safe_column_name ''id'') (?clock i),
               add_column_query (py_str_opt (Some ''sales.\"ORDERS\"''))
                 (safe_column_name ''id'' @ '' '' @ ''text'')]
            @ post"
    by blast
  then have ex: "\<exists>pre post. ?log =
        pre @ [version_column_query ''sales.\"ORDERS\"'' (safe_column_name ''id'') ''20260101_1200'',
               add_column_query ''sales.\"ORDERS\"'' (safe_column_name ''id'' @ '' '' @ ''text'')]
            @ post"
    by (simp add: py_str_opt_def)
  from run ex show ?thesis by (rule conjI)
qed

end
